theory Spec2Isabelle
  imports
    Main
    "HOL-Library.Sublist"
    "HOL-Library.Char_ord"
    "HOL-Library.List_Lexorder"
    "HOL-Library.Multiset"
begin

section \<open>Shared data: strings, numbers, JSON values\<close>

text \<open>
  The repository holds three JavaScript programs: the scan server (\<^verbatim>\<open>src/others/main.js\<close>,
  lines 1-316, with the worker script it passes to \<^verbatim>\<open>new Worker\<close> in lines 29-166), the
  URL checker that writes a results file (\<^verbatim>\<open>src/others/main.js\<close>, lines 317-653) and the
  route checker (\<^verbatim>\<open>src/url-checker.js\<close>). Strings are \<^typ>\<open>string\<close>, JavaScript
  integers are \<^typ>\<open>int\<close> or \<^typ>\<open>nat\<close>, objects are records or datatypes.
\<close>

definition digit_char :: "nat \<Rightarrow> char" where
  "digit_char d = ''0123456789'' ! (d mod 10)"

fun show_nat :: "nat \<Rightarrow> string" where
  "show_nat n = (if n < 10 then [digit_char n] else show_nat (n div 10) @ [digit_char n])"

declare show_nat.simps [simp del]

text \<open>\<^verbatim>\<open>String(n)\<close> and string concatenation with an integer \<open>n\<close>.\<close>

definition show_int :: "int \<Rightarrow> string" where
  "show_int i = (if i < 0 then CHR ''-'' # show_nat (nat (- i)) else show_nat (nat i))"

text \<open>What \<^verbatim>\<open>JSON.parse\<close> returns. Numbers are kept as integers: no claim reads one.\<close>

datatype json =
    JNull
  | JBool bool
  | JNum int
  | JStr string
  | JArr "json list"
  | JObj "(string \<times> json) list"

text \<open>
  \<^verbatim>\<open>s.split(c)\<close> for a one-character separator: the pieces between the separators, so the
  empty string gives one empty piece and a trailing separator gives a last empty piece.
\<close>

fun split_on :: "char \<Rightarrow> string \<Rightarrow> string list" where
  "split_on c [] = [[]]"
| "split_on c (x # xs) =
     (if x = c then [] # split_on c xs
      else (case split_on c xs of
              [] \<Rightarrow> [[x]]
            | l # ls \<Rightarrow> (x # l) # ls))"

definition newline :: char where
  "newline = CHR 0x0A"

section \<open>The fetch pool: classifying one outcome\<close>

text \<open>
  \<^verbatim>\<open>fetchWithTimeout\<close> returns \<^verbatim>\<open>{ ok: false, err }\<close> when \<^verbatim>\<open>fetch\<close> rejects (also when
  the timer aborts the request, which rejects with an error named \<^verbatim>\<open>AbortError\<close>) and
  \<^verbatim>\<open>{ ok: true, res }\<close> otherwise. Of \<^verbatim>\<open>err\<close> the workers read \<^verbatim>\<open>name\<close>, \<^verbatim>\<open>message\<close> and
  \<^verbatim>\<open>String(err)\<close>; of \<^verbatim>\<open>res\<close> they read \<^verbatim>\<open>status\<close>.
\<close>

record js_error =
  err_name :: string
  err_message :: string
  err_string :: string

datatype fetch_outcome =
    Rejected js_error
  | Resolved int

text \<open>The \<^verbatim>\<open>status\<close> field of a result: the string \<^verbatim>\<open>"ERROR"\<close> or the response's number.\<close>

datatype status_field =
    StatusERROR
  | StatusCode int

text \<open>
  A result object. The route checker's objects have no \<^verbatim>\<open>index\<close>, and its error objects
  have no \<^verbatim>\<open>tag\<close> and no \<^verbatim>\<open>time\<close>: a field an object lacks is \<^term>\<open>None\<close>.
\<close>

record fetch_result =
  r_index :: "nat option"
  r_url :: string
  r_suffix :: string
  r_status :: status_field
  r_tag :: "string option"
  r_time :: "nat option"
  r_detail :: "string option"

text \<open>The template \<^verbatim>\<open>`TIMEOUT (${timeoutMs}ms)`\<close>.\<close>

definition timeout_reason :: "int \<Rightarrow> string" where
  "timeout_reason timeoutMs = ''TIMEOUT ('' @ show_int timeoutMs @ ''ms)''"

text \<open>
  \<^verbatim>\<open>main.js\<close> line 572:
  \<^verbatim>\<open>err && err.name === "AbortError" ? `TIMEOUT (...)` : (err && (err.message || String(err))) || "UNKNOWN"\<close>.
  An empty string is falsy, so \<^verbatim>\<open>||\<close> moves on from it.
\<close>

definition reason_main :: "int \<Rightarrow> js_error \<Rightarrow> string" where
  "reason_main timeoutMs err =
     (if err_name err = ''AbortError'' then timeout_reason timeoutMs
      else if err_message err \<noteq> [] then err_message err
      else if err_string err \<noteq> [] then err_string err
      else ''UNKNOWN'')"

text \<open>
  \<^verbatim>\<open>url-checker.js\<close> line 117:
  \<^verbatim>\<open>err.name === "AbortError" ? `TIMEOUT (...)` : (err.message || String(err))\<close>.
\<close>

definition reason_route :: "int \<Rightarrow> js_error \<Rightarrow> string" where
  "reason_route timeoutMs err =
     (if err_name err = ''AbortError'' then timeout_reason timeoutMs
      else if err_message err \<noteq> [] then err_message err
      else err_string err)"

text \<open>
  The tag of a response status, the same five lines in both programs
  (\<^verbatim>\<open>main.js\<close> 585-589, \<^verbatim>\<open>url-checker.js\<close> 125-129): the last test is
  \<^verbatim>\<open>status >= 500\<close>, with no upper bound.
\<close>

definition tag_of_status :: "int \<Rightarrow> string" where
  "tag_of_status status =
     (if status \<ge> 200 \<and> status < 300 then ''OK''
      else if status \<ge> 300 \<and> status < 400 then ''REDIRECT''
      else if status \<ge> 400 \<and> status < 500 then ''NOTFOUND/CLIENT''
      else if status \<ge> 500 then ''SERVERERROR''
      else ''UNKNOWN'')"

text \<open>
  The result object the URL checker builds for the task at \<open>index\<close> (\<^verbatim>\<open>main.js\<close> 570-600):
  its \<^verbatim>\<open>index\<close> field is \<^verbatim>\<open>index + 1\<close>.
\<close>

definition result_main ::
  "int \<Rightarrow> nat \<Rightarrow> string \<Rightarrow> string \<Rightarrow> nat \<Rightarrow> fetch_outcome \<Rightarrow> fetch_result" where
  "result_main timeoutMs index url sfx duration outcome =
     (case outcome of
        Rejected err \<Rightarrow>
          \<lparr>r_index = Some (index + 1), r_url = url, r_suffix = sfx, r_status = StatusERROR,
           r_tag = Some ''ERROR'', r_time = Some duration,
           r_detail = Some (reason_main timeoutMs err)\<rparr>
      | Resolved status \<Rightarrow>
          \<lparr>r_index = Some (index + 1), r_url = url, r_suffix = sfx,
           r_status = StatusCode status, r_tag = Some (tag_of_status status),
           r_time = Some duration, r_detail = None\<rparr>)"

text \<open>The result object the route checker pushes (\<^verbatim>\<open>url-checker.js\<close> 116-132).\<close>

definition result_route ::
  "int \<Rightarrow> string \<Rightarrow> string \<Rightarrow> nat \<Rightarrow> fetch_outcome \<Rightarrow> fetch_result" where
  "result_route timeoutMs url sfx duration outcome =
     (case outcome of
        Rejected err \<Rightarrow>
          \<lparr>r_index = None, r_url = url, r_suffix = sfx, r_status = StatusERROR,
           r_tag = None, r_time = None, r_detail = Some (reason_route timeoutMs err)\<rparr>
      | Resolved status \<Rightarrow>
          \<lparr>r_index = None, r_url = url, r_suffix = sfx, r_status = StatusCode status,
           r_tag = Some (tag_of_status status), r_time = Some duration, r_detail = None\<rparr>)"

section \<open>The pipeline: parsing the probe output\<close>

text \<open>
  The parse task of the worker script (\<^verbatim>\<open>main.js\<close> 126-134). \<^verbatim>\<open>JSON.parse\<close> is a parameter:
  \<^term>\<open>None\<close> where it throws. \<^verbatim>\<open>filter(Boolean)\<close> drops the empty strings. The argument is
  what \<^verbatim>\<open>fs.readFile\<close> gave, \<^term>\<open>None\<close> where it threw.
\<close>

definition parse_error_record :: "string \<Rightarrow> json" where
  "parse_error_record l = JObj [(''_parseError'', JBool True), (''raw'', JStr l)]"

definition parse_line :: "(string \<Rightarrow> json option) \<Rightarrow> string \<Rightarrow> json" where
  "parse_line json_parse l =
     (case json_parse l of Some v \<Rightarrow> v | None \<Rightarrow> parse_error_record l)"

definition nonempty_lines :: "string \<Rightarrow> string list" where
  "nonempty_lines raw = filter (\<lambda>l. l \<noteq> []) (split_on newline raw)"

definition parse_httpx :: "(string \<Rightarrow> json option) \<Rightarrow> string option \<Rightarrow> json list" where
  "parse_httpx json_parse file =
     (case file of
        None \<Rightarrow> []
      | Some raw \<Rightarrow> map (parse_line json_parse) (nonempty_lines raw))"

section \<open>The pipeline: merging the discovery outputs\<close>

text \<open>
  The worker script is the text of lines 29-166, run in a worker thread. The model reads
  each task as that text runs in the worker; in line 103 the two placeholders
  \<^verbatim>\<open>${parts.map(...).join(' ')}\<close> and \<^verbatim>\<open>${allList}\<close> stand for the worker's own \<^verbatim>\<open>parts\<close>
  and \<^verbatim>\<open>allList\<close>, as the comments of lines 96-102 describe.

  The files of the machine are a map from path to content. \<^verbatim>\<open>path.join(dir, name)\<close> is
  modelled for a directory and a file name that need no normalisation.
\<close>

type_synonym files = "string \<rightharpoonup> string"

definition path_join :: "string \<Rightarrow> string \<Rightarrow> string" where
  "path_join dir name = dir @ ''/'' @ name"

definition subfinderOut :: "string \<Rightarrow> string" where
  "subfinderOut workdir = path_join workdir ''subfinder.txt''"

definition amassOut :: "string \<Rightarrow> string" where
  "amassOut workdir = path_join workdir ''amass.txt''"

definition allList :: "string \<Rightarrow> string" where
  "allList workdir = path_join workdir ''all.txt''"

definition httpxOut :: "string \<Rightarrow> string" where
  "httpxOut workdir = path_join workdir ''httpx.jsonl''"

text \<open>
  Lines 97-99: \<^verbatim>\<open>parts\<close> holds, in this order, the subfinder output and the amass output
  that \<^verbatim>\<open>fs.access\<close> finds.
\<close>

definition merge_parts :: "files \<Rightarrow> string \<Rightarrow> string list" where
  "merge_parts fs workdir =
     filter (\<lambda>p. fs p \<noteq> None) [subfinderOut workdir, amassOut workdir]"






text \<open>
  What the shell command does when it succeeds is the work of \<^verbatim>\<open>cat\<close> and \<^verbatim>\<open>sort -u\<close>, which
  are not code of this repository. They are modelled as POSIX describes them, in the C
  locale: \<^verbatim>\<open>cat\<close> concatenates the files; \<^verbatim>\<open>sort -u\<close> reads lines (a last line needs no
  newline), orders them by their bytes, keeps one of each, and writes every line with a
  newline.
\<close>

definition text_lines :: "string \<Rightarrow> string list" where
  "text_lines s =
     (let ps = split_on newline s in if last ps = [] then butlast ps else ps)"

definition unlines :: "string list \<Rightarrow> string" where
  "unlines ls = concat (map (\<lambda>l. l @ [newline]) ls)"

definition cat :: "files \<Rightarrow> string list \<Rightarrow> string" where
  "cat fs parts = concat (map (\<lambda>p. case fs p of Some c \<Rightarrow> c | None \<Rightarrow> []) parts)"

definition sort_u :: "string \<Rightarrow> string" where
  "sort_u s = unlines (sort (remdups (text_lines s)))"

text \<open>
  The merge task, lines 95-107. \<open>failure\<close> is the error with which the one operation the
  task awaits rejects (\<^verbatim>\<open>spawnCmd\<close>, which also rejects on a non-zero exit and after 30
  seconds, or \<^verbatim>\<open>fs.writeFile\<close>), \<^term>\<open>None\<close> when it resolves. A rejection is not caught
  by the task: it ends the pipeline in the \<^verbatim>\<open>catch\<close> of line 162.
\<close>

definition merge_task :: "files \<Rightarrow> string \<Rightarrow> string option \<Rightarrow> string + files" where
  "merge_task fs workdir failure =
     (let parts = merge_parts fs workdir in
      if length parts > 0 then
        (case failure of
           Some e \<Rightarrow> Inl e
         | None \<Rightarrow> Inr (fs(allList workdir \<mapsto> sort_u (cat fs parts))))
      else
        (case failure of
           Some e \<Rightarrow> Inl e
         | None \<Rightarrow> Inr (fs(allList workdir \<mapsto> ''''))))"

section \<open>The pipeline: the messages of one run\<close>

text \<open>The three messages the worker script posts to its parent.\<close>

datatype msg =
    Log string
  | MsgDone json
  | MsgError string

text \<open>
  What the outside world does during one run of the script: for each awaited operation
  that can reject, the message of the error (\<^term>\<open>None\<close> when it resolves); what
  \<^verbatim>\<open>fs.access\<close> and \<^verbatim>\<open>fs.readFile\<close> find; the clock.
\<close>

record run_env =
  mkdir_failure :: "string option"
  subfinder_failure :: "string option"
  amass_failure :: "string option"
  files_at_merge :: files
  merge_failure :: "string option"
  httpx_failure :: "string option"
  httpx_touch_failure :: "string option"
  httpx_file :: "string option"
  results_json_failure :: "string option"
  results_txt_failure :: "string option"
  meta_json_failure :: "string option"
  started_at :: string
  finished_at :: string
  elapsed_ms :: "string \<Rightarrow> nat"

text \<open>
  The \<^verbatim>\<open>meta\<close> object of the \<^verbatim>\<open>done\<close> message (lines 68, 80-160): the six tasks and the two
  time stamps. A task's \<^verbatim>\<open>duration_minutes\<close> is computed in floating point from the elapsed
  milliseconds; the model stores the milliseconds.
\<close>

definition task_entry :: "run_env \<Rightarrow> string \<Rightarrow> json" where
  "task_entry env name =
     JObj [(''name'', JStr name), (''duration_minutes'', JNum (int (elapsed_ms env name)))]"

definition meta_object :: "string \<Rightarrow> string \<Rightarrow> run_env \<Rightarrow> json" where
  "meta_object jobId hostname env =
     JObj [(''jobId'', JStr jobId), (''hostname'', JStr hostname),
           (''tasks'', JArr (map (task_entry env)
              [''subfinder'', ''amass'', ''merge'', ''httpx'', ''parse_httpx'', ''save_results''])),
           (''startedAt'', JStr (started_at env)),
           (''finishedAt'', JStr (finished_at env))]"

definition failure_log :: "string \<Rightarrow> string option \<Rightarrow> msg list" where
  "failure_log tool failure =
     (case failure of
        None \<Rightarrow> []
      | Some e \<Rightarrow> [Log (''[TASK] '' @ tool @ '' failed or not present: '' @ e)])"

text \<open>
  The save task, lines 141-156, after the log of line 139: the first operation to throw
  decides the error. Reading \<^verbatim>\<open>it._parseError\<close> throws a \<^verbatim>\<open>TypeError\<close> when \<^verbatim>\<open>it\<close> is
  \<^verbatim>\<open>null\<close>, which \<^verbatim>\<open>JSON.parse\<close> returns for the line \<^verbatim>\<open>null\<close>.
\<close>

definition save_task :: "run_env \<Rightarrow> json list \<Rightarrow> string option" where
  "save_task env jsonLines =
     (case results_json_failure env of
        Some e \<Rightarrow> Some e
      | None \<Rightarrow>
          if JNull \<in> set jsonLines
          then Some ''Cannot read properties of null (reading '_parseError')''
          else (case results_txt_failure env of
                  Some e \<Rightarrow> Some e
                | None \<Rightarrow> meta_json_failure env))"

text \<open>
  The httpx task, lines 113-121: the \<^verbatim>\<open>.catch\<close> logs the failure and returns the promise
  of \<^verbatim>\<open>fs.writeFile(httpxOut, '')\<close>, so that write's rejection is not handled.
\<close>

definition httpx_task :: "run_env \<Rightarrow> string option" where
  "httpx_task env =
     (case httpx_failure env of
        None \<Rightarrow> None
      | Some _ \<Rightarrow> httpx_touch_failure env)"

text \<open>
  The messages the script posts, in order (lines 62-165). Every rejection that no
  \<^verbatim>\<open>.catch\<close> handles reaches the \<^verbatim>\<open>catch\<close> of line 162, which posts one \<^verbatim>\<open>error\<close> message
  and ends the script; otherwise the script ends with one \<^verbatim>\<open>done\<close> message.
\<close>

definition workerCode ::
  "(string \<Rightarrow> json option) \<Rightarrow> string \<Rightarrow> string \<Rightarrow> string \<Rightarrow> run_env \<Rightarrow> msg list" where
  "workerCode json_parse jobId hostname workdir env =
     (case mkdir_failure env of
        Some e \<Rightarrow> [MsgError e]
      | None \<Rightarrow>
     (let logs1 =
            [Log (''[JOB '' @ jobId @ ''] Starting scan for: '' @ hostname),
             Log ''[TASK] About to run subfinder (passive discovery). Estimated time: ~1.5 minutes'']
            @ failure_log ''subfinder'' (subfinder_failure env) @
            [Log ''[TASK] About to run amass (passive). Estimated time: ~2.5 minutes'']
            @ failure_log ''amass'' (amass_failure env) @
            [Log ''[TASK] Merging and deduplicating subdomain lists. Estimated time: ~0.2 minutes'']
      in
      case merge_task (files_at_merge env) workdir (merge_failure env) of
        Inl e \<Rightarrow> logs1 @ [MsgError e]
      | Inr _ \<Rightarrow>
     (let logs2 = logs1 @
            [Log ''[TASK] About to run httpx to probe HTTP(s) and collect status codes. Estimated time: ~2.0 minutes'']
            @ failure_log ''httpx'' (httpx_failure env)
      in
      case httpx_task env of
        Some e \<Rightarrow> logs2 @ [MsgError e]
      | None \<Rightarrow>
     (let logs3 = logs2 @
            [Log ''[TASK] Parsing httpx output into JSON. Estimated time: ~0.05 minutes'',
             Log ''[TASK] Saving results and metadata to server. Estimated time: ~0.02 minutes'']
      in
      case save_task env (parse_httpx json_parse (httpx_file env)) of
        Some e \<Rightarrow> logs3 @ [MsgError e]
      | None \<Rightarrow>
          logs3 @ [MsgDone (meta_object jobId hostname env)]))))"


section \<open>The scan server: the job table and its handlers\<close>

text \<open>
  The entries of the map \<^verbatim>\<open>jobs\<close> (line 18). The entry of a running job holds its
  \<^verbatim>\<open>Worker\<close>; the entries written by the handlers hold \<^verbatim>\<open>meta\<close> or \<^verbatim>\<open>error\<close> instead.
\<close>

datatype job_status = Queued | Running | Done | Failed

record job =
  j_status :: job_status
  j_worker :: bool
  j_meta :: "json option"
  j_error :: "string option"

definition queued_job :: job where
  "queued_job = \<lparr>j_status = Queued, j_worker = False, j_meta = None, j_error = None\<rparr>"

definition running_job :: job where
  "running_job = \<lparr>j_status = Running, j_worker = True, j_meta = None, j_error = None\<rparr>"

definition done_job :: "json \<Rightarrow> job" where
  "done_job meta = \<lparr>j_status = Done, j_worker = False, j_meta = Some meta, j_error = None\<rparr>"

definition failed_job :: "string \<Rightarrow> job" where
  "failed_job e = \<lparr>j_status = Failed, j_worker = False, j_meta = None, j_error = Some e\<rparr>"

text \<open>
  The thread of a job, as the parent sees it: the messages the script has still to
  deliver; \<open>Stopping\<close> after \<^verbatim>\<open>terminate()\<close>; \<open>Crashed\<close> after an uncaught exception;
  \<open>Exited\<close> after the \<^verbatim>\<open>exit\<close> event.
\<close>

datatype thread =
    Active "msg list"
  | Stopping "msg list"
  | Crashed
  | Exited

text \<open>A change of the job table: \<^verbatim>\<open>jobs.set\<close> of an entry with a status, or the removal of an entry.\<close>

datatype table_change =
    Set string job_status
  | Del string

text \<open>
  The state of the server: the job table, the files, the threads, the \<^verbatim>\<open>DELETE\<close> requests
  that wait for \<^verbatim>\<open>fs.rm\<close>, the job ids drawn so far and the changes of the table so far, in
  order. The last two are history: no handler reads them.
\<close>

record server =
  jobs :: "string \<rightharpoonup> job"
  files :: files
  threads :: "string \<rightharpoonup> thread"
  deleting :: "string list"
  issued :: "string list"
  changes :: "table_change list"

definition init_server :: server where
  "init_server = \<lparr>jobs = Map.empty, files = Map.empty, threads = Map.empty,
                   deleting = [], issued = [], changes = []\<rparr>"

definition jobs_set :: "string \<Rightarrow> job \<Rightarrow> server \<Rightarrow> server" where
  "jobs_set jobId job st =
     st\<lparr>jobs := (jobs st)(jobId \<mapsto> job), changes := changes st @ [Set jobId (j_status job)]\<rparr>"

definition jobs_delete :: "string \<Rightarrow> server \<Rightarrow> server" where
  "jobs_delete jobId st =
     st\<lparr>jobs := (jobs st)(jobId := None),
        changes := changes st @ (if jobs st jobId \<noteq> None then [Del jobId] else [])\<rparr>"

text \<open>\<^verbatim>\<open>worker.on('message', ...)\<close>, lines 177-192.\<close>

definition on_message :: "string \<Rightarrow> msg \<Rightarrow> server \<Rightarrow> server" where
  "on_message jobId m st =
     (case m of
        Log _ \<Rightarrow> st
      | MsgDone meta \<Rightarrow> jobs_set jobId (done_job meta) st
      | MsgError e \<Rightarrow> jobs_set jobId (failed_job e) st)"

text \<open>\<^verbatim>\<open>worker.on('error', ...)\<close>, lines 194-198.\<close>

definition on_error :: "string \<Rightarrow> string \<Rightarrow> server \<Rightarrow> server" where
  "on_error jobId e st = jobs_set jobId (failed_job e) st"

text \<open>
  \<^verbatim>\<open>worker.on('exit', ...)\<close>, lines 200-208. \<^verbatim>\<open>jobs.get(jobId) || {}\<close> gives an object with
  no status when the table has no entry.
\<close>

definition on_exit :: "string \<Rightarrow> int \<Rightarrow> server \<Rightarrow> server" where
  "on_exit jobId code st =
     (if code \<noteq> 0 then
        (let status = map_option j_status (jobs st jobId) in
         if status \<noteq> Some Done \<and> status \<noteq> Some Failed
         then jobs_set jobId (failed_job (''worker exited with code '' @ show_int code)) st
         else st)
      else st)"

definition workdir_of :: "string \<Rightarrow> string \<Rightarrow> string" where
  "workdir_of scans_dir jobId = path_join scans_dir (''scan-'' @ jobId)"

text \<open>
  \<^verbatim>\<open>startScanWorker\<close>, lines 26-210: the worker is created with the script and the entry
  becomes \<^verbatim>\<open>{ status: 'running', worker }\<close>. The thread will deliver the messages of one
  run of the script.
\<close>

definition startScanWorker ::
  "(string \<Rightarrow> json option) \<Rightarrow> string \<Rightarrow> string \<Rightarrow> string \<Rightarrow> run_env \<Rightarrow> server \<Rightarrow> server" where
  "startScanWorker json_parse scans_dir jobId hostname env st =
     jobs_set jobId running_job
       (st\<lparr>threads := (threads st)(jobId \<mapsto>
              Active (workerCode json_parse jobId hostname (workdir_of scans_dir jobId) env))\<rparr>)"

text \<open>
  \<^verbatim>\<open>POST /scan\<close> from line 228 on, for a request whose url passed the checks of lines
  214-226: \<open>jobId\<close> is what \<^verbatim>\<open>randomBytes(6).toString('hex')\<close> gave.
\<close>

definition post_scan ::
  "(string \<Rightarrow> json option) \<Rightarrow> string \<Rightarrow> string \<Rightarrow> string \<Rightarrow> run_env \<Rightarrow> server \<Rightarrow> server" where
  "post_scan json_parse scans_dir jobId hostname env st =
     startScanWorker json_parse scans_dir jobId hostname env
       (jobs_set jobId queued_job (st\<lparr>issued := issued st @ [jobId]\<rparr>))"

text \<open>
  \<^verbatim>\<open>DELETE /results/:jobId\<close> up to its \<^verbatim>\<open>await\<close>, lines 287-301: \<^verbatim>\<open>terminate()\<close> when the
  entry holds a worker.
\<close>

definition terminate :: "string \<Rightarrow> server \<Rightarrow> server" where
  "terminate jobId st =
     (case threads st jobId of
        Some (Active ms) \<Rightarrow> st\<lparr>threads := (threads st)(jobId \<mapsto> Stopping ms)\<rparr>
      | _ \<Rightarrow> st)"

definition delete_begin :: "string \<Rightarrow> server \<Rightarrow> server" where
  "delete_begin jobId st =
     (let st' = (case jobs st jobId of
                   Some job \<Rightarrow> if j_worker job then terminate jobId st else st
                 | None \<Rightarrow> st)
      in st'\<lparr>deleting := deleting st' @ [jobId]\<rparr>)"

text \<open>
  The rest of the handler, lines 301-307, once \<^verbatim>\<open>fs.rm(workdir, { recursive: true, force:
  true })\<close> has settled: when it resolved the directory's files are gone and the entry is
  removed; when it rejected the table is left as it is.
\<close>

definition rm_recursive :: "string \<Rightarrow> files \<Rightarrow> files" where
  "rm_recursive dir fs = (\<lambda>p. if prefix (dir @ ''/'') p then None else fs p)"

definition delete_end :: "string \<Rightarrow> string \<Rightarrow> bool \<Rightarrow> server \<Rightarrow> server" where
  "delete_end scans_dir jobId removed st =
     (let st' = st\<lparr>deleting := remove1 jobId (deleting st)\<rparr> in
      if removed
      then jobs_delete jobId (st'\<lparr>files := rm_recursive (workdir_of scans_dir jobId) (files st')\<rparr>)
      else st')"

section \<open>The scan server: routes and responses\<close>

text \<open>
  What a response carries: the value given to \<^verbatim>\<open>res.json\<close>, the file given to
  \<^verbatim>\<open>res.download\<close> with the name it is sent under, or the page Express sends itself when
  no route matches.
\<close>

datatype body =
    JsonBody json
  | FileBody string string
  | NoRoutePage

type_synonym response = "nat \<times> body"

definition status_name :: "job_status \<Rightarrow> string" where
  "status_name s =
     (case s of Queued \<Rightarrow> ''queued'' | Running \<Rightarrow> ''running'' | Done \<Rightarrow> ''done''
      | Failed \<Rightarrow> ''failed'')"

text \<open>\<^verbatim>\<open>x || null\<close> for a field that may be missing: a missing or falsy value gives \<^verbatim>\<open>null\<close>.\<close>

definition falsy :: "json \<Rightarrow> bool" where
  "falsy v = (v = JNull \<or> v = JBool False \<or> v = JNum 0 \<or> v = JStr [])"

definition or_null :: "json option \<Rightarrow> json" where
  "or_null v = (case v of None \<Rightarrow> JNull | Some x \<Rightarrow> if falsy x then JNull else x)"

definition meta_file :: "string \<Rightarrow> string \<Rightarrow> string" where
  "meta_file scans_dir jobId = path_join (workdir_of scans_dir jobId) ''meta.json''"

text \<open>
  \<^verbatim>\<open>GET /status/:jobId\<close>, lines 249-265. When the table has no entry, the handler reads and
  parses \<^verbatim>\<open>meta.json\<close> of the job's directory; a read or a parse that throws gives 404.
\<close>

definition get_status ::
  "(string \<Rightarrow> json option) \<Rightarrow> string \<Rightarrow> server \<Rightarrow> string \<Rightarrow> response" where
  "get_status json_parse scans_dir st jobId =
     (case jobs st jobId of
        None \<Rightarrow>
          (case files st (meta_file scans_dir jobId) of
             None \<Rightarrow> (404, JsonBody (JObj [(''error'', JStr ''job not found'')]))
           | Some raw \<Rightarrow>
               (case json_parse raw of
                  None \<Rightarrow> (404, JsonBody (JObj [(''error'', JStr ''job not found'')]))
                | Some meta \<Rightarrow>
                    (200, JsonBody (JObj [(''jobId'', JStr jobId), (''status'', JStr ''done''),
                                          (''meta'', meta)]))))
      | Some job \<Rightarrow>
          (200, JsonBody (JObj [(''jobId'', JStr jobId),
                                (''status'', JStr (status_name (j_status job))),
                                (''error'', or_null (map_option JStr (j_error job))),
                                (''meta'', or_null (j_meta job))])))"

text \<open>\<^verbatim>\<open>GET /download/:jobId\<close>, lines 268-283, when the download itself does not fail.\<close>

definition get_download :: "string \<Rightarrow> server \<Rightarrow> string \<Rightarrow> response" where
  "get_download scans_dir st jobId =
     (case files st (path_join (workdir_of scans_dir jobId) ''results.txt'') of
        None \<Rightarrow> (404, JsonBody (JObj [(''error'', JStr ''results not found'')]))
      | Some content \<Rightarrow> (200, FileBody (''results-'' @ jobId @ ''.txt'') content))"

text \<open>\<^verbatim>\<open>GET /status/health\<close>, lines 310-312.\<close>

definition get_health :: response where
  "get_health = (200, JsonBody (JObj [(''ok'', JBool True)]))"

text \<open>
  The routes in the order the file registers them with \<^verbatim>\<open>app.post\<close>, \<^verbatim>\<open>app.get\<close> and
  \<^verbatim>\<open>app.delete\<close>. A path is the list of its segments; \<^verbatim>\<open>:jobId\<close> matches one non-empty
  segment. Express gives a request to the first route whose method and path match, and
  no handler of this file calls \<^verbatim>\<open>next\<close>, so no later route sees the request.
\<close>

datatype http_method = GET | POST | DELETE

datatype segment = Lit string | Param string

datatype handler = PostScan | GetStatus | GetDownload | DeleteResults | GetHealth

definition routes :: "(http_method \<times> segment list \<times> handler) list" where
  "routes =
     [(POST, [Lit ''scan''], PostScan),
      (GET, [Lit ''status'', Param ''jobId''], GetStatus),
      (GET, [Lit ''download'', Param ''jobId''], GetDownload),
      (DELETE, [Lit ''results'', Param ''jobId''], DeleteResults),
      (GET, [Lit ''status'', Lit ''health''], GetHealth)]"

fun match_path :: "segment list \<Rightarrow> string list \<Rightarrow> (string \<times> string) list option" where
  "match_path [] [] = Some []"
| "match_path (Lit l # ps) (s # ss) = (if l = s then match_path ps ss else None)"
| "match_path (Param n # ps) (s # ss) =
     (if s = [] then None else map_option (\<lambda>r. (n, s) # r) (match_path ps ss))"
| "match_path _ _ = None"

fun dispatch ::
  "(http_method \<times> segment list \<times> handler) list \<Rightarrow> http_method \<Rightarrow> string list
     \<Rightarrow> (handler \<times> (string \<times> string) list) option" where
  "dispatch [] m path = None"
| "dispatch ((m', pat, h) # rs) m path =
     (if m' = m then
        (case match_path pat path of
           Some params \<Rightarrow> Some (h, params)
         | None \<Rightarrow> dispatch rs m path)
      else dispatch rs m path)"

text \<open>\<^verbatim>\<open>req.params.jobId\<close>.\<close>

definition param :: "string \<Rightarrow> (string \<times> string) list \<Rightarrow> string" where
  "param n params = (case map_of params n of Some v \<Rightarrow> v | None \<Rightarrow> [])"

text \<open>
  The answer to a \<^verbatim>\<open>GET\<close> request. Express answers 404 itself when no route matches; the
  two other handlers are not \<^verbatim>\<open>GET\<close> routes.
\<close>

definition serve_get ::
  "(string \<Rightarrow> json option) \<Rightarrow> string \<Rightarrow> server \<Rightarrow> string list \<Rightarrow> response" where
  "serve_get json_parse scans_dir st path =
     (case dispatch routes GET path of
        Some (GetStatus, params) \<Rightarrow> get_status json_parse scans_dir st (param ''jobId'' params)
      | Some (GetDownload, params) \<Rightarrow> get_download scans_dir st (param ''jobId'' params)
      | Some (GetHealth, params) \<Rightarrow> get_health
      | _ \<Rightarrow> (404, NoRoutePage))"

section \<open>The scan server: events\<close>

text \<open>
  What can happen to the server, one handler run at a time: an accepted \<^verbatim>\<open>POST /scan\<close>; the
  \<^verbatim>\<open>message\<close>, \<^verbatim>\<open>error\<close> and \<^verbatim>\<open>exit\<close> events of a job's worker; a file the worker's run
  writes in its directory; the two halves of a \<^verbatim>\<open>DELETE /results/:jobId\<close>.
\<close>

datatype event =
    Scan string string run_env
  | WorkerMessage string
  | WorkerError string string
  | WorkerExit string int
  | WorkerWrite string string string
  | DeleteBegin string
  | DeleteEnd string bool

definition is_terminal :: "msg \<Rightarrow> bool" where
  "is_terminal m = (case m of Log _ \<Rightarrow> False | _ \<Rightarrow> True)"

text \<open>
  One event, \<^term>\<open>None\<close> when it cannot happen in the state:
  \<^item> messages arrive in the order the script posts them, also after \<^verbatim>\<open>terminate()\<close>, until
    the thread has exited;
  \<^item> an \<^verbatim>\<open>error\<close> event is an uncaught exception of a thread whose script has not posted
    its last message; it is followed by the exit code 1;
  \<^item> a thread exits once; a terminated thread exits with the code 1, a running one with
    any code;
  \<^item> the second half of a \<^verbatim>\<open>DELETE\<close> follows a first half.
\<close>

definition step ::
  "(string \<Rightarrow> json option) \<Rightarrow> string \<Rightarrow> server \<Rightarrow> event \<Rightarrow> server option" where
  "step json_parse scans_dir st ev =
     (case ev of
        Scan jobId hostname env \<Rightarrow> Some (post_scan json_parse scans_dir jobId hostname env st)
      | WorkerMessage jobId \<Rightarrow>
          (case threads st jobId of
             Some (Active (m # ms)) \<Rightarrow>
               Some (on_message jobId m (st\<lparr>threads := (threads st)(jobId \<mapsto> Active ms)\<rparr>))
           | Some (Stopping (m # ms)) \<Rightarrow>
               Some (on_message jobId m (st\<lparr>threads := (threads st)(jobId \<mapsto> Stopping ms)\<rparr>))
           | _ \<Rightarrow> None)
      | WorkerError jobId e \<Rightarrow>
          (case threads st jobId of
             Some (Active ms) \<Rightarrow>
               if list_ex is_terminal ms
               then Some (on_error jobId e (st\<lparr>threads := (threads st)(jobId \<mapsto> Crashed)\<rparr>))
               else None
           | _ \<Rightarrow> None)
      | WorkerExit jobId code \<Rightarrow>
          (case threads st jobId of
             Some (Active ms) \<Rightarrow>
               Some (on_exit jobId code (st\<lparr>threads := (threads st)(jobId \<mapsto> Exited)\<rparr>))
           | Some (Stopping ms) \<Rightarrow>
               if code = 1
               then Some (on_exit jobId code (st\<lparr>threads := (threads st)(jobId \<mapsto> Exited)\<rparr>))
               else None
           | Some Crashed \<Rightarrow>
               if code = 1
               then Some (on_exit jobId code (st\<lparr>threads := (threads st)(jobId \<mapsto> Exited)\<rparr>))
               else None
           | _ \<Rightarrow> None)
      | WorkerWrite jobId name content \<Rightarrow>
          (case threads st jobId of
             Some (Active ms) \<Rightarrow>
               Some (st\<lparr>files := (files st)(path_join (workdir_of scans_dir jobId) name \<mapsto> content)\<rparr>)
           | _ \<Rightarrow> None)
      | DeleteBegin jobId \<Rightarrow> Some (delete_begin jobId st)
      | DeleteEnd jobId removed \<Rightarrow>
          if jobId \<in> set (deleting st)
          then Some (delete_end scans_dir jobId removed st)
          else None)"


text \<open>
  The statuses written for a job, all of them, and those written until the entry is
  first removed.
\<close>

fun statuses_of :: "string \<Rightarrow> table_change list \<Rightarrow> job_status list" where
  "statuses_of jobId [] = []"
| "statuses_of jobId (Set k s # cs) =
     (if k = jobId then s # statuses_of jobId cs else statuses_of jobId cs)"
| "statuses_of jobId (Del k # cs) = statuses_of jobId cs"


section \<open>The scan server: what stays true of every job\<close>






section \<open>The fetch pool: workers and the shared cursor\<close>

text \<open>
  Both checkers run the same pool (\<^verbatim>\<open>main.js\<close> 556-621, \<^verbatim>\<open>url-checker.js\<close> 102-140): the
  cursor \<^verbatim>\<open>idx\<close> (\<^verbatim>\<open>i\<close> in the route checker) and the array \<^verbatim>\<open>results\<close> are shared by
  \<^verbatim>\<open>Math.min(concurrency, lines.length)\<close> calls of the async function \<^verbatim>\<open>worker\<close>. JavaScript
  runs one worker at a time, from one \<^verbatim>\<open>await\<close> to the next, so the state of a worker between
  two runs is the \<^verbatim>\<open>await\<close> it stands at.
\<close>

datatype program = UrlChecker | RouteChecker

text \<open>
  What a run is given: the non-empty lines of \<^verbatim>\<open>try.txt\<close>, the base URL, the timeout and
  the concurrency from the command line (\<^verbatim>\<open>parseInt\<close> gives an integer, which may be
  negative), and \<^verbatim>\<open>buildUrl\<close>, whose result the pool only stores in the result object.
  For an empty list of lines both programs return before they build the pool.
\<close>

record pool_cfg =
  lines :: "string list"
  baseUrl :: string
  timeoutMs :: int
  concurrency :: int
  buildUrl :: "string \<Rightarrow> string \<Rightarrow> string"

text \<open>
  Where a worker stands: not yet called; at the \<^verbatim>\<open>await\<close> of \<^verbatim>\<open>fetchWithTimeout\<close> for the
  index it claimed; at the \<^verbatim>\<open>await\<close> of \<^verbatim>\<open>fs.appendFile\<close> with the line to append (the URL
  checker only); at the \<^verbatim>\<open>await\<close> of \<^verbatim>\<open>wait(50)\<close>; or after the \<^verbatim>\<open>break\<close>.
\<close>

datatype worker_state =
    NotStarted
  | Fetching nat
  | Appending string
  | Sleeping
  | Finished

text \<open>
  The shared state: the cursor \<open>idx\<close>, the results in memory, the lines appended to the
  results file so far and the workers. \<open>claims\<close> is history: for each run of \<^verbatim>\<open>const index = idx++\<close>, the
  index read and the worker that read it.
\<close>

record pool =
  idx :: nat
  results :: "fetch_result list"
  outFile :: "string list"
  workers :: "worker_state list"
  claims :: "(nat \<times> nat) list"

text \<open>
  The top of the loop, run by worker \<open>w\<close> without interruption: \<^verbatim>\<open>const index = idx++;
  if (index >= lines.length) break;\<close> and on to the \<^verbatim>\<open>await\<close> of the fetch.
\<close>

definition claim :: "pool_cfg \<Rightarrow> nat \<Rightarrow> pool \<Rightarrow> pool" where
  "claim cfg w st =
     (let index = idx st;
          st' = st\<lparr>idx := index + 1, claims := claims st @ [(index, w)]\<rparr>
      in if index \<ge> length (lines cfg)
         then st'\<lparr>workers := (workers st')[w := Finished]\<rparr>
         else st'\<lparr>workers := (workers st')[w := Fetching index]\<rparr>)"

text \<open>\<^verbatim>\<open>makeReadableLine\<close>, \<^verbatim>\<open>main.js\<close> 441-447, for the objects the URL checker builds.\<close>

definition show_status :: "status_field \<Rightarrow> string" where
  "show_status s = (case s of StatusERROR \<Rightarrow> ''ERROR'' | StatusCode n \<Rightarrow> show_int n)"

definition makeReadableLine :: "fetch_result \<Rightarrow> string" where
  "makeReadableLine r =
     (let head = ''['' @ (case r_index r of Some i \<Rightarrow> show_nat i | None \<Rightarrow> ''undefined'')
                  @ ''] '' @ r_url r @ '' -> '';
          time = '' ('' @ (case r_time r of Some t \<Rightarrow> show_nat t | None \<Rightarrow> ''undefined'')
                  @ ''ms)''
      in if r_status r = StatusERROR
         then head @ ''ERROR: '' @ (case r_detail r of Some d \<Rightarrow> d | None \<Rightarrow> ''undefined'')
              @ time
         else head @ show_status (r_status r) @ '' ''
              @ (case r_tag r of Some t \<Rightarrow> t | None \<Rightarrow> ''undefined'') @ time)"

text \<open>
  What resumes a worker: the fetch settles (with its outcome and the milliseconds it
  took), the append settles (resolved or rejected), or the timer fires.
\<close>

datatype pool_event =
    FetchSettled nat fetch_outcome nat
  | AppendSettled nat bool
  | TimerFired nat

text \<open>
  One run of a worker of the URL checker, from the \<^verbatim>\<open>await\<close> it stands at to the next
  (\<^verbatim>\<open>main.js\<close> 567-615). A worker that fetches for an index has checked the index against
  \<^verbatim>\<open>lines.length\<close>, so \<^verbatim>\<open>lines[index]\<close> is in range.
\<close>

definition worker_main :: "pool_cfg \<Rightarrow> pool \<Rightarrow> pool_event \<Rightarrow> pool option" where
  "worker_main cfg st ev =
     (case ev of
        FetchSettled w outcome duration \<Rightarrow>
          (if w < length (workers st) then
             (case workers st ! w of
                Fetching index \<Rightarrow>
                  (let sfx = lines cfg ! index;
                       url = buildUrl cfg (baseUrl cfg) sfx;
                       resultObj = result_main (timeoutMs cfg) index url sfx duration outcome
                   in Some (st\<lparr>results := results st @ [resultObj],
                               workers := (workers st)
                                 [w := Appending (makeReadableLine resultObj @ [newline])]\<rparr>))
              | _ \<Rightarrow> None)
           else None)
      | AppendSettled w ok \<Rightarrow>
          (if w < length (workers st) then
             (case workers st ! w of
                Appending line \<Rightarrow>
                  Some (st\<lparr>outFile := (if ok then outFile st @ [line] else outFile st),
                           workers := (workers st)[w := Sleeping]\<rparr>)
              | _ \<Rightarrow> None)
           else None)
      | TimerFired w \<Rightarrow>
          (if w < length (workers st) then
             (case workers st ! w of
                Sleeping \<Rightarrow> Some (claim cfg w st)
              | _ \<Rightarrow> None)
           else None))"

text \<open>
  One run of a worker of the route checker (\<^verbatim>\<open>url-checker.js\<close> 113-134): after a failed
  fetch it pushes the result and goes on with \<^verbatim>\<open>continue\<close>, so it claims its next index in
  the same run; after a response it pushes the result and waits.
\<close>

definition worker_route :: "pool_cfg \<Rightarrow> pool \<Rightarrow> pool_event \<Rightarrow> pool option" where
  "worker_route cfg st ev =
     (case ev of
        FetchSettled w outcome duration \<Rightarrow>
          (if w < length (workers st) then
             (case workers st ! w of
                Fetching index \<Rightarrow>
                  (let sfx = lines cfg ! index;
                       url = buildUrl cfg (baseUrl cfg) sfx;
                       st' = st\<lparr>results := results st @
                                  [result_route (timeoutMs cfg) url sfx duration outcome]\<rparr>
                   in case outcome of
                        Rejected _ \<Rightarrow> Some (claim cfg w st')
                      | Resolved _ \<Rightarrow> Some (st'\<lparr>workers := (workers st')[w := Sleeping]\<rparr>))
              | _ \<Rightarrow> None)
           else None)
      | AppendSettled w ok \<Rightarrow> None
      | TimerFired w \<Rightarrow>
          (if w < length (workers st) then
             (case workers st ! w of
                Sleeping \<Rightarrow> Some (claim cfg w st)
              | _ \<Rightarrow> None)
           else None))"

definition pool_step :: "program \<Rightarrow> pool_cfg \<Rightarrow> pool \<Rightarrow> pool_event \<Rightarrow> pool option" where
  "pool_step prog = (case prog of UrlChecker \<Rightarrow> worker_main | RouteChecker \<Rightarrow> worker_route)"

fun pool_exec :: "program \<Rightarrow> pool_cfg \<Rightarrow> pool_event list \<Rightarrow> pool \<Rightarrow> pool option" where
  "pool_exec prog cfg [] st = Some st"
| "pool_exec prog cfg (ev # evs) st =
     (case pool_step prog cfg st ev of
        None \<Rightarrow> None
      | Some st' \<Rightarrow> pool_exec prog cfg evs st')"

text \<open>
  \<^verbatim>\<open>Array(Math.min(concurrency, lines.length)).fill(0).map(() => worker())\<close>: \<^verbatim>\<open>Array\<close> throws
  a \<^verbatim>\<open>RangeError\<close> for a negative length; otherwise the workers are called one after the
  other, and each call runs to its first \<^verbatim>\<open>await\<close> before the next is made.
\<close>

definition workerCount :: "pool_cfg \<Rightarrow> int" where
  "workerCount cfg = min (concurrency cfg) (int (length (lines cfg)))"

definition start_pool :: "pool_cfg \<Rightarrow> string + pool" where
  "start_pool cfg =
     (if workerCount cfg < 0 then Inl ''RangeError: Invalid array length''
      else Inr (fold (claim cfg) [0..<nat (workerCount cfg)]
                  \<lparr>idx = 0, results = [], outFile = [],
                   workers = replicate (nat (workerCount cfg)) NotStarted, claims = []\<rparr>))"

text \<open>\<^verbatim>\<open>await Promise.all(workers)\<close> resolves once every worker has left its loop.\<close>

definition all_finished :: "pool \<Rightarrow> bool" where
  "all_finished st = list_all (\<lambda>s. s = Finished) (workers st)"

text \<open>The indices whose fetch is under way, and the number of workers that have finished.\<close>

definition tasks_of :: "worker_state \<Rightarrow> nat list" where
  "tasks_of s = (case s of Fetching i \<Rightarrow> [i] | _ \<Rightarrow> [])"

definition in_flight :: "pool \<Rightarrow> nat list" where
  "in_flight st = concat (map tasks_of (workers st))"

definition finished_count :: "pool \<Rightarrow> nat" where
  "finished_count st = length (filter (\<lambda>s. s = Finished) (workers st))"

definition is_appending :: "worker_state \<Rightarrow> bool" where
  "is_appending s = (case s of Appending _ \<Rightarrow> True | _ \<Rightarrow> False)"

text \<open>
  The invariant of the pool:
  \<^item> the indices read from the cursor are \<open>0\<close>, \<open>1\<close>, ... in this order;
  \<^item> the suffixes of the results in memory, with the suffixes whose fetch is under way,
    are the first \<open>idx\<close> suffixes of the list, each as often as the list has it;
  \<^item> an index whose fetch is under way is an index of the list;
  \<^item> as many workers have left their loops as the cursor has gone past the end of the
    list;
  \<^item> every worker has been called, and no worker of the route checker appends to a file.
\<close>

definition pool_inv :: "program \<Rightarrow> pool_cfg \<Rightarrow> pool \<Rightarrow> bool" where
  "pool_inv prog cfg st =
     (map fst (claims st) = [0..<idx st] \<and>
      mset (map r_suffix (results st)) + mset (map (\<lambda>i. lines cfg ! i) (in_flight st)) =
        mset (take (idx st) (lines cfg)) \<and>
      (\<forall>i \<in> set (in_flight st). i < length (lines cfg)) \<and>
      finished_count st = idx st - length (lines cfg) \<and>
      NotStarted \<notin> set (workers st) \<and>
      (prog = RouteChecker \<longrightarrow> \<not> list_ex is_appending (workers st)))"

text \<open>
  A bound on the events a pool can still take: every event lowers it. A worker at a
  fetch has at most three events before its next claim, and at most
  \<open>length lines + length workers\<close> claims are made in all.
\<close>

definition weight :: "worker_state \<Rightarrow> nat" where
  "weight s =
     (case s of NotStarted \<Rightarrow> 0 | Fetching _ \<Rightarrow> 3 | Appending _ \<Rightarrow> 2 | Sleeping \<Rightarrow> 1
      | Finished \<Rightarrow> 0)"

definition fuel :: "pool_cfg \<Rightarrow> pool \<Rightarrow> nat" where
  "fuel cfg st =
     4 * (length (lines cfg) + length (workers st) - idx st)
       + sum_list (map weight (workers st))"

text \<open>
  A run of the URL checker with two workers over three suffixes: the first is answered
  200, the second 404, and the fetch of the third is aborted by the timer.
\<close>

definition scenario :: pool_cfg where
  "scenario =
     \<lparr>lines = [''ok'', ''missing'', ''slow''], baseUrl = ''https://example.test'',
      timeoutMs = 5000, concurrency = 2, buildUrl = (\<lambda>base sfx. base @ ''/'' @ sfx)\<rparr>"

definition scenario_events :: "pool_event list" where
  "scenario_events =
     [FetchSettled 0 (Resolved 200) 12, FetchSettled 1 (Resolved 404) 15,
      AppendSettled 0 True, AppendSettled 1 True, TimerFired 0, TimerFired 1,
      FetchSettled 0
        (Rejected \<lparr>err_name = ''AbortError'', err_message = ''This operation was aborted'',
                   err_string = ''AbortError: This operation was aborted''\<rparr>) 5001,
      AppendSettled 0 True, TimerFired 0]"

section \<open>Properties of the fetch pool's classification\<close>

lemma tag_of_status_below_600:
  assumes "status < 600"
  shows "tag_of_status status =
           (if 200 \<le> status \<and> status < 300 then ''OK''
            else if 300 \<le> status \<and> status < 400 then ''REDIRECT''
            else if 400 \<le> status \<and> status < 500 then ''NOTFOUND/CLIENT''
            else if 500 \<le> status \<and> status < 600 then ''SERVERERROR''
            else ''UNKNOWN'')"
  using assms by (simp add: tag_of_status_def)

text \<open>
  C8. The claim asks for \<^verbatim>\<open>UNKNOWN\<close> on every status outside 200..599. At the status 999
  both programs tag the response \<^verbatim>\<open>SERVERERROR\<close>, in the result object as well.
\<close>

theorem C8_status_999_is_tagged_server_error:
  "tag_of_status 999 = ''SERVERERROR'' \<and>
   r_tag (result_main 5000 0 ''https://example.test/x'' ''x'' 12 (Resolved 999))
     = Some ''SERVERERROR'' \<and>
   r_tag (result_route 8000 ''https://example.test/x'' ''x'' 12 (Resolved 999))
     = Some ''SERVERERROR''"
  by (simp add: tag_of_status_def result_main_def result_route_def)

section \<open>Properties of the parse task\<close>



section \<open>Properties of the merge task\<close>

















section \<open>Properties of the exit handler\<close>



lemma on_exit_zero: "on_exit jobId 0 st = st"
  by (simp add: on_exit_def)




section \<open>Properties of the routes\<close>

lemma health_handler_never_dispatched: "dispatch routes m path \<noteq> Some (GetHealth, params)"
proof -
  have "match_path [Lit ''status'', Param ''jobId''] path \<noteq> None"
    if "match_path [Lit ''status'', Lit ''health''] path \<noteq> None"
  proof (cases path)
    case Nil
    with that show ?thesis by simp
  next
    case (Cons a as)
    with that show ?thesis
      by (cases as; cases "tl as") (auto split: if_splits)
  qed
  then show ?thesis
    by (cases m) (auto simp: routes_def split: option.splits)
qed

text \<open>
  C9. The health request \<^verbatim>\<open>GET /status/health\<close> is given to the handler of
  \<^verbatim>\<open>/status/:jobId\<close>, registered before the health route, with the job id \<^verbatim>\<open>health\<close>; on a
  server with no such job and no such directory the answer is 404.
\<close>

theorem C9_health_request_answered_404:
  "dispatch routes GET [''status'', ''health''] = Some (GetStatus, [(''jobId'', ''health'')]) \<and>
   serve_get (\<lambda>_. None) ''/srv/scans'' init_server [''status'', ''health''] =
     (404, JsonBody (JObj [(''error'', JStr ''job not found'')]))"
  by (simp add: routes_def serve_get_def get_status_def init_server_def param_def)

section \<open>Properties of the status query\<close>

text \<open>
  C10. For a job id with no entry in the table whose \<^verbatim>\<open>meta.json\<close> is read and parsed, the
  status query answers 200 with the status \<^verbatim>\<open>done\<close> and the parsed document.
\<close>

theorem C10_fallback_reports_done:
  assumes "jobs st jobId = None"
    and "files st (meta_file scans_dir jobId) = Some raw"
    and "json_parse raw = Some meta"
  shows "get_status json_parse scans_dir st jobId =
           (200, JsonBody (JObj [(''jobId'', JStr jobId), (''status'', JStr ''done''),
                                 (''meta'', meta)]))"
  using assms by (simp add: get_status_def)

theorem C10_fallback_reports_done_witness:
  "jobs (init_server\<lparr>files := [''/srv/scans/scan-00ff00ff00ff/meta.json'' \<mapsto> ''{}'']\<rparr>)
     ''00ff00ff00ff'' = None \<and>
   get_status (\<lambda>s. if s = ''{}'' then Some (JObj []) else None) ''/srv/scans''
     (init_server\<lparr>files := [''/srv/scans/scan-00ff00ff00ff/meta.json'' \<mapsto> ''{}'']\<rparr>)
     ''00ff00ff00ff'' =
   (200, JsonBody (JObj [(''jobId'', JStr ''00ff00ff00ff''), (''status'', JStr ''done''),
                         (''meta'', JObj [])]))"
  using C10_fallback_reports_done
    [of "init_server\<lparr>files := [''/srv/scans/scan-00ff00ff00ff/meta.json'' \<mapsto> ''{}'']\<rparr>"
        "''00ff00ff00ff''" "''/srv/scans''" "''{}''"
        "\<lambda>s. if s = ''{}'' then Some (JObj []) else None" "JObj []"]
  by (simp add: init_server_def meta_file_def workdir_of_def path_join_def)

section \<open>Properties of cancelling a job\<close>


section \<open>Properties of the job table's history\<close>

lemma statuses_of_append:
  "statuses_of j (cs @ ds) = statuses_of j cs @ statuses_of j ds"
  by (induction j cs rule: statuses_of.induct) auto

lemma statuses_of_snoc_Set [simp]:
  "statuses_of j (cs @ [Set k s]) = statuses_of j cs @ (if k = j then [s] else [])"
  by (simp add: statuses_of_append)

lemma statuses_of_snoc_Del [simp]: "statuses_of j (cs @ [Del k]) = statuses_of j cs"
  by (simp add: statuses_of_append)







lemma jobs_set_fields [simp]:
  "jobs (jobs_set k job st) = (jobs st)(k \<mapsto> job)"
  "threads (jobs_set k job st) = threads st"
  "issued (jobs_set k job st) = issued st"
  "changes (jobs_set k job st) = changes st @ [Set k (j_status job)]"
  by (simp_all add: jobs_set_def)

lemma jobs_delete_fields [simp]:
  "jobs (jobs_delete k st) = (jobs st)(k := None)"
  "threads (jobs_delete k st) = threads st"
  "issued (jobs_delete k st) = issued st"
  "changes (jobs_delete k st) = changes st @ (if jobs st k \<noteq> None then [Del k] else [])"
  by (simp_all add: jobs_delete_def)

































section \<open>Properties of the fetch pool\<close>

lemma filter_count_update:
  assumes "w < length ws"
  shows "length (filter P (ws[w := y])) + (if P (ws ! w) then 1 else 0) =
         length (filter P ws) + (if P y then 1 else 0)"
  using assms
proof (induction ws arbitrary: w)
  case Nil
  then show ?case by simp
next
  case (Cons x xs)
  show ?case
  proof (cases w)
    case 0
    then show ?thesis by simp
  next
    case (Suc v)
    with Cons.prems have "v < length xs" by simp
    from Cons.IH [OF this] Suc show ?thesis by simp
  qed
qed

lemma sum_list_update:
  fixes f :: "'a \<Rightarrow> nat"
  assumes "w < length ws"
  shows "sum_list (map f (ws[w := y])) + f (ws ! w) = sum_list (map f ws) + f y"
  using assms
proof (induction ws arbitrary: w)
  case Nil
  then show ?case by simp
next
  case (Cons x xs)
  show ?case
  proof (cases w)
    case 0
    then show ?thesis by simp
  next
    case (Suc v)
    with Cons.prems have "v < length xs" by simp
    from Cons.IH [OF this] Suc show ?thesis by simp
  qed
qed

lemma mset_concat_update:
  assumes "w < length ws"
  shows "mset (concat (map g (ws[w := y]))) + mset (g (ws ! w)) =
         mset (concat (map g ws)) + mset (g y)"
  using assms
proof (induction ws arbitrary: w)
  case Nil
  then show ?case by simp
next
  case (Cons x xs)
  show ?case
  proof (cases w)
    case 0
    then show ?thesis by simp
  next
    case (Suc v)
    with Cons.prems have "v < length xs" by simp
    from Cons.IH [OF this] Suc show ?thesis by simp
  qed
qed

text \<open>What changes when one worker moves from the state \<open>workers st ! w\<close> to the state \<open>s\<close>.\<close>

lemma in_flight_update:
  assumes "w < length (workers st)"
  shows "mset (in_flight (st\<lparr>workers := (workers st)[w := s]\<rparr>)) + mset (tasks_of (workers st ! w))
         = mset (in_flight st) + mset (tasks_of s)"
  using mset_concat_update [OF assms, of tasks_of s] by (simp add: in_flight_def)

lemma finished_count_update:
  assumes "w < length (workers st)"
  shows "finished_count (st\<lparr>workers := (workers st)[w := s]\<rparr>)
           + (if workers st ! w = Finished then 1 else 0)
         = finished_count st + (if s = Finished then 1 else 0)"
  using filter_count_update [OF assms, of "\<lambda>s. s = Finished" s] by (simp add: finished_count_def)

lemma weight_update:
  assumes "w < length (workers st)"
  shows "sum_list (map weight ((workers st)[w := s])) + weight (workers st ! w)
         = sum_list (map weight (workers st)) + weight s"
  using assms by (rule sum_list_update)

lemma set_update_cases: "x \<in> set (ws[w := s]) \<Longrightarrow> x = s \<or> x \<in> set ws"
  using set_update_subset_insert [of ws w s] by auto

lemma claim_fields:
  "idx (claim cfg w st) = idx st + 1"
  "results (claim cfg w st) = results st"
  "outFile (claim cfg w st) = outFile st"
  "claims (claim cfg w st) = claims st @ [(idx st, w)]"
  "workers (claim cfg w st) =
     (workers st)[w := (if idx st \<ge> length (lines cfg) then Finished
                        else Fetching (idx st))]"
  by (simp_all add: claim_def Let_def)

lemma claim_overwrites:
  "claim cfg w (st\<lparr>workers := (workers st)[w := s]\<rparr>) = claim cfg w st"
  by (simp add: claim_def Let_def)

text \<open>
  Moving one worker that is neither at a fetch nor finished: to the top of the loop
  (\<open>claim\<close>), or on to another \<^verbatim>\<open>await\<close>.
\<close>

lemma pool_inv_claim:
  assumes inv: "pool_inv prog cfg st" and w: "w < length (workers st)"
    and idle: "tasks_of (workers st ! w) = []" "workers st ! w \<noteq> Finished"
  shows "pool_inv prog cfg (claim cfg w st)"
proof -
  let ?c = "idx st" and ?n = "length (lines cfg)"
  let ?s = "if ?c \<ge> ?n then Finished else Fetching ?c"
  let ?st = "st\<lparr>workers := (workers st)[w := ?s]\<rparr>"
  have wk: "workers (claim cfg w st) = workers ?st"
    by (simp add: claim_fields)
  then have fl: "in_flight (claim cfg w st) = in_flight ?st"
    and fc: "finished_count (claim cfg w st) = finished_count ?st"
    by (simp_all add: in_flight_def finished_count_def)
  from inv have cl: "map fst (claims st) = [0..<?c]"
    and tasks: "mset (map r_suffix (results st)) + mset (map (\<lambda>i. lines cfg ! i) (in_flight st))
        = mset (take ?c (lines cfg))"
    and range: "\<forall>i \<in> set (in_flight st). i < ?n"
    and fin: "finished_count st = ?c - ?n"
    and called: "NotStarted \<notin> set (workers st)"
    and route: "prog = RouteChecker \<Longrightarrow> \<not> list_ex is_appending (workers st)"
    by (simp_all add: pool_inv_def)
  have flight: "mset (in_flight ?st) = mset (in_flight st) + mset (tasks_of ?s)"
    using in_flight_update [OF w, of ?s] idle by simp
  have "map fst (claims (claim cfg w st)) = [0..<idx (claim cfg w st)]"
    using cl by (simp add: claim_fields)
  moreover have "mset (map r_suffix (results (claim cfg w st)))
        + mset (map (\<lambda>i. lines cfg ! i) (in_flight (claim cfg w st)))
      = mset (take (idx (claim cfg w st)) (lines cfg))"
  proof (cases "?c \<ge> ?n")
    case True
    with flight have "mset (in_flight ?st) = mset (in_flight st)"
      by (simp add: tasks_of_def)
    then have "image_mset (\<lambda>i. lines cfg ! i) (mset (in_flight ?st))
        = image_mset (\<lambda>i. lines cfg ! i) (mset (in_flight st))"
      by (simp only:)
    then have "mset (map (\<lambda>i. lines cfg ! i) (in_flight ?st))
        = mset (map (\<lambda>i. lines cfg ! i) (in_flight st))"
      by simp
    with tasks True show ?thesis by (simp add: claim_fields fl)
  next
    case False
    with flight have "mset (in_flight ?st) = mset (in_flight st) + {#?c#}"
      by (simp add: tasks_of_def)
    then have "image_mset (\<lambda>i. lines cfg ! i) (mset (in_flight ?st))
        = image_mset (\<lambda>i. lines cfg ! i) (mset (in_flight st) + {#?c#})"
      by (simp only:)
    then have "mset (map (\<lambda>i. lines cfg ! i) (in_flight ?st))
        = mset (map (\<lambda>i. lines cfg ! i) (in_flight st)) + {#lines cfg ! ?c#}"
      by simp
    moreover from False have "take (Suc ?c) (lines cfg) = take ?c (lines cfg) @ [lines cfg ! ?c]"
      by (simp add: take_Suc_conv_app_nth)
    ultimately show ?thesis using tasks by (simp add: claim_fields fl)
  qed
  moreover have "\<forall>i \<in> set (in_flight (claim cfg w st)). i < ?n"
  proof
    fix i
    assume "i \<in> set (in_flight (claim cfg w st))"
    then have "i \<in># mset (in_flight ?st)" by (simp add: fl)
    with flight have "i \<in> set (in_flight st) \<or> i \<in> set (tasks_of ?s)" by auto
    with range show "i < ?n" by (auto simp: tasks_of_def split: if_splits)
  qed
  moreover have "finished_count (claim cfg w st) = idx (claim cfg w st) - ?n"
    using finished_count_update [OF w, of ?s] idle fin by (auto simp: fc claim_fields)
  moreover have "NotStarted \<notin> set (workers (claim cfg w st))"
    using called by (auto simp: wk dest: set_update_cases split: if_splits)
  moreover have "\<not> list_ex is_appending (workers (claim cfg w st))" if "prog = RouteChecker"
    using route [OF that]
    by (auto simp: wk list_ex_iff is_appending_def dest!: set_update_cases split: if_splits)
  ultimately show ?thesis by (simp add: pool_inv_def)
qed

lemma pool_inv_move:
  assumes inv: "pool_inv prog cfg st" and w: "w < length (workers st)"
    and s: "tasks_of s = []" "s \<noteq> Finished" "s \<noteq> NotStarted"
      "prog = RouteChecker \<Longrightarrow> \<not> is_appending s"
    and old: "workers st ! w \<noteq> Finished"
    and res: "mset (map r_suffix rs) =
        mset (map r_suffix (results st)) + mset (map (\<lambda>i. lines cfg ! i) (tasks_of (workers st ! w)))"
  shows "pool_inv prog cfg (st\<lparr>results := rs, outFile := out, workers := (workers st)[w := s]\<rparr>)"
proof -
  let ?n = "length (lines cfg)"
  let ?st = "st\<lparr>workers := (workers st)[w := s]\<rparr>"
  let ?st' = "st\<lparr>results := rs, outFile := out, workers := (workers st)[w := s]\<rparr>"
  have fl: "in_flight ?st' = in_flight ?st"
    and fc: "finished_count ?st' = finished_count ?st"
    by (simp_all add: in_flight_def finished_count_def)
  from inv have cl: "map fst (claims st) = [0..<idx st]"
    and tasks: "mset (map r_suffix (results st)) + mset (map (\<lambda>i. lines cfg ! i) (in_flight st))
        = mset (take (idx st) (lines cfg))"
    and range: "\<forall>i \<in> set (in_flight st). i < ?n"
    and fin: "finished_count st = idx st - ?n"
    and called: "NotStarted \<notin> set (workers st)"
    and route: "prog = RouteChecker \<Longrightarrow> \<not> list_ex is_appending (workers st)"
    by (simp_all add: pool_inv_def)
  have flight: "mset (in_flight ?st) + mset (tasks_of (workers st ! w)) = mset (in_flight st)"
    using in_flight_update [OF w, of s] s by simp
  then have "image_mset (\<lambda>i. lines cfg ! i) (mset (in_flight ?st) + mset (tasks_of (workers st ! w)))
      = image_mset (\<lambda>i. lines cfg ! i) (mset (in_flight st))"
    by (simp only:)
  then have "mset (map (\<lambda>i. lines cfg ! i) (in_flight ?st))
        + mset (map (\<lambda>i. lines cfg ! i) (tasks_of (workers st ! w)))
      = mset (map (\<lambda>i. lines cfg ! i) (in_flight st))"
    by simp
  with tasks res have "mset (map r_suffix rs) + mset (map (\<lambda>i. lines cfg ! i) (in_flight ?st'))
      = mset (take (idx st) (lines cfg))"
    by (simp add: fl ac_simps)
  moreover have "\<forall>i \<in> set (in_flight ?st'). i < ?n"
  proof
    fix i
    assume "i \<in> set (in_flight ?st')"
    then have "i \<in># mset (in_flight ?st)" by (simp add: fl)
    then have "i \<in># mset (in_flight st)" using flight by (metis union_iff)
    with range show "i < ?n" by simp
  qed
  moreover have "finished_count ?st' = idx st - ?n"
    using finished_count_update [OF w, of s] s old fin by (simp add: fc)
  moreover have "NotStarted \<notin> set (workers ?st')"
    using called s by (auto dest: set_update_cases)
  moreover have "\<not> list_ex is_appending (workers ?st')" if "prog = RouteChecker"
    using route [OF that] s(4) [OF that]
    by (auto simp: list_ex_iff dest!: set_update_cases)
  ultimately show ?thesis using cl by (simp add: pool_inv_def)
qed

lemma result_suffix:
  "r_suffix (result_main t index url sfx d outcome) = sfx"
  "r_suffix (result_route t url sfx d outcome) = sfx"
  by (cases outcome; simp add: result_main_def result_route_def)+

lemma pool_step_inv:
  assumes step: "pool_step prog cfg st ev = Some st'" and inv: "pool_inv prog cfg st"
  shows "pool_inv prog cfg st' \<and> length (workers st') = length (workers st)"
proof (cases prog)
  case UrlChecker
  with step have step: "worker_main cfg st ev = Some st'" by (simp add: pool_step_def)
  show ?thesis
  proof (cases ev)
    case (FetchSettled w outcome duration)
    with step obtain index where w: "w < length (workers st)"
      and busy: "workers st ! w = Fetching index"
      by (auto simp: worker_main_def split: if_splits worker_state.splits)
    define r where "r = result_main (timeoutMs cfg) index
      (buildUrl cfg (baseUrl cfg) (lines cfg ! index)) (lines cfg ! index) duration outcome"
    define line where "line = makeReadableLine r @ [newline]"
    have r: "r_suffix r = lines cfg ! index"
      by (simp add: r_def result_suffix)
    from step FetchSettled w busy
    have st': "st' = st\<lparr>results := results st @ [r], outFile := outFile st,
        workers := (workers st)[w := Appending line]\<rparr>"
      by (simp add: worker_main_def Let_def r_def line_def)
    have "pool_inv prog cfg st'"
      unfolding st' using inv w
      by (rule pool_inv_move) (simp_all add: UrlChecker busy r tasks_of_def)
    then show ?thesis by (simp add: st')
  next
    case (AppendSettled w ok)
    with step obtain line where w: "w < length (workers st)"
      and at: "workers st ! w = Appending line"
      by (auto simp: worker_main_def split: if_splits worker_state.splits)
    with step AppendSettled have
      "st' = st\<lparr>outFile := (if ok then outFile st @ [line] else outFile st),
                 workers := (workers st)[w := Sleeping]\<rparr>"
      by (auto simp: worker_main_def)
    then have st': "st' = st\<lparr>results := results st,
        outFile := (if ok then outFile st @ [line] else outFile st),
        workers := (workers st)[w := Sleeping]\<rparr>"
      by simp
    have "pool_inv prog cfg st'"
      unfolding st' using inv w
      by (rule pool_inv_move) (simp_all add: at tasks_of_def is_appending_def)
    then show ?thesis by (simp add: st')
  next
    case (TimerFired w)
    with step have w: "w < length (workers st)" and at: "workers st ! w = Sleeping"
      and st': "st' = claim cfg w st"
      by (auto simp: worker_main_def split: if_splits worker_state.splits)
    have "pool_inv prog cfg st'"
      unfolding st' using inv w by (rule pool_inv_claim) (simp_all add: at tasks_of_def)
    then show ?thesis by (simp add: st' claim_fields)
  qed
next
  case RouteChecker
  with step have step: "worker_route cfg st ev = Some st'" by (simp add: pool_step_def)
  show ?thesis
  proof (cases ev)
    case (FetchSettled w outcome duration)
    with step obtain index where w: "w < length (workers st)"
      and busy: "workers st ! w = Fetching index"
      by (auto simp: worker_route_def split: if_splits worker_state.splits)
    define r where "r = result_route (timeoutMs cfg)
      (buildUrl cfg (baseUrl cfg) (lines cfg ! index)) (lines cfg ! index) duration outcome"
    let ?pushed = "st\<lparr>results := results st @ [r], outFile := outFile st,
      workers := (workers st)[w := Sleeping]\<rparr>"
    have pushed: "pool_inv prog cfg ?pushed"
      using inv w
      by (rule pool_inv_move) (simp_all add: busy r_def result_suffix tasks_of_def is_appending_def)
    show ?thesis
    proof (cases outcome)
      case (Resolved status)
      with step FetchSettled w busy have "st' = ?pushed"
        by (simp add: worker_route_def Let_def r_def)
      with pushed show ?thesis by simp
    next
      case (Rejected err)
      with step FetchSettled w busy have "st' = claim cfg w (st\<lparr>results := results st @ [r]\<rparr>)"
        by (simp add: worker_route_def Let_def r_def)
      also have "\<dots> = claim cfg w ?pushed"
        using claim_overwrites [of cfg w "st\<lparr>results := results st @ [r]\<rparr>" Sleeping] by simp
      finally have st': "st' = claim cfg w ?pushed" .
      have "pool_inv prog cfg (claim cfg w ?pushed)"
        using pushed by (rule pool_inv_claim) (use w in \<open>simp_all add: tasks_of_def\<close>)
      then show ?thesis by (simp add: st' claim_fields)
    qed
  next
    case (AppendSettled w ok)
    with step show ?thesis by (simp add: worker_route_def)
  next
    case (TimerFired w)
    with step have w: "w < length (workers st)" and at: "workers st ! w = Sleeping"
      and st': "st' = claim cfg w st"
      by (auto simp: worker_route_def split: if_splits worker_state.splits)
    have "pool_inv prog cfg st'"
      unfolding st' using inv w by (rule pool_inv_claim) (simp_all add: at tasks_of_def)
    then show ?thesis by (simp add: st' claim_fields)
  qed
qed

lemma pool_exec_inv:
  assumes "pool_exec prog cfg evs st = Some st'" and "pool_inv prog cfg st"
  shows "pool_inv prog cfg st' \<and> length (workers st') = length (workers st)"
  using assms
proof (induction evs arbitrary: st)
  case Nil
  then show ?case by simp
next
  case (Cons ev evs)
  then obtain st1 where one: "pool_step prog cfg st ev = Some st1"
    and more: "pool_exec prog cfg evs st1 = Some st'"
    by (auto split: option.splits)
  from pool_step_inv [OF one Cons.prems(2)] Cons.IH [OF more] show ?case by simp
qed

lemma cursor_below_end:
  assumes inv: "pool_inv prog cfg st" and w: "w < length (workers st)"
    and running: "workers st ! w \<noteq> Finished"
  shows "idx st < length (lines cfg) + length (workers st)"
proof -
  from w running have "length (filter (\<lambda>s. s = Finished) (workers st)) < length (workers st)"
    by (intro length_filter_less [of "workers st ! w"]) simp_all
  moreover from inv have "finished_count st = idx st - length (lines cfg)"
    by (simp add: pool_inv_def)
  ultimately show ?thesis by (simp add: finished_count_def)
qed

lemma fuel_claim:
  assumes inv: "pool_inv prog cfg st" and w: "w < length (workers st)"
    and running: "workers st ! w \<noteq> Finished"
  shows "fuel cfg (claim cfg w st) + weight (workers st ! w) < fuel cfg st"
proof -
  let ?s = "if idx st \<ge> length (lines cfg) then Finished else Fetching (idx st)"
  have "sum_list (map weight (workers (claim cfg w st))) + weight (workers st ! w)
      = sum_list (map weight (workers st)) + weight ?s"
    using weight_update [OF w, of ?s] by (simp add: claim_fields)
  moreover have "weight ?s \<le> 3" by (simp add: weight_def)
  moreover note cursor_below_end [OF inv w running]
  ultimately show ?thesis by (simp add: fuel_def claim_fields)
qed

lemma fuel_move:
  assumes w: "w < length (workers st)" and less: "weight s < weight (workers st ! w)"
  shows "fuel cfg (st\<lparr>results := rs, outFile := out, workers := (workers st)[w := s]\<rparr>) < fuel cfg st"
  using weight_update [OF w, of s] less by (simp add: fuel_def)

lemma pool_step_fuel:
  assumes step: "pool_step prog cfg st ev = Some st'" and inv: "pool_inv prog cfg st"
  shows "fuel cfg st' < fuel cfg st"
proof (cases prog)
  case UrlChecker
  with step have step: "worker_main cfg st ev = Some st'" by (simp add: pool_step_def)
  show ?thesis
  proof (cases ev)
    case (FetchSettled w outcome duration)
    with step obtain index where w: "w < length (workers st)"
      and busy: "workers st ! w = Fetching index"
      by (auto simp: worker_main_def split: if_splits worker_state.splits)
    define r where "r = result_main (timeoutMs cfg) index
      (buildUrl cfg (baseUrl cfg) (lines cfg ! index)) (lines cfg ! index) duration outcome"
    define line where "line = makeReadableLine r @ [newline]"
    from step FetchSettled w busy
    have st': "st' = st\<lparr>results := results st @ [r], outFile := outFile st,
        workers := (workers st)[w := Appending line]\<rparr>"
      by (simp add: worker_main_def Let_def r_def line_def)
    show ?thesis
      unfolding st' using w by (rule fuel_move) (simp add: busy weight_def)
  next
    case (AppendSettled w ok)
    with step obtain line where w: "w < length (workers st)"
      and at: "workers st ! w = Appending line"
      by (auto simp: worker_main_def split: if_splits worker_state.splits)
    define out where "out = (if ok then outFile st @ [line] else outFile st)"
    from step AppendSettled w at
    have st': "st' = st\<lparr>results := results st, outFile := out,
        workers := (workers st)[w := Sleeping]\<rparr>"
      by (simp add: worker_main_def out_def)
    show ?thesis
      unfolding st' using w by (rule fuel_move) (simp add: at weight_def)
  next
    case (TimerFired w)
    with step have w: "w < length (workers st)" and at: "workers st ! w = Sleeping"
      and st': "st' = claim cfg w st"
      by (auto simp: worker_main_def split: if_splits worker_state.splits)
    from fuel_claim [OF inv w] at show ?thesis by (simp add: st')
  qed
next
  case RouteChecker
  with step have step: "worker_route cfg st ev = Some st'" by (simp add: pool_step_def)
  show ?thesis
  proof (cases ev)
    case (FetchSettled w outcome duration)
    with step obtain index where w: "w < length (workers st)"
      and busy: "workers st ! w = Fetching index"
      by (auto simp: worker_route_def split: if_splits worker_state.splits)
    define r where "r = result_route (timeoutMs cfg)
      (buildUrl cfg (baseUrl cfg) (lines cfg ! index)) (lines cfg ! index) duration outcome"
    let ?pushed = "st\<lparr>results := results st @ [r], outFile := outFile st,
      workers := (workers st)[w := Sleeping]\<rparr>"
    have less: "fuel cfg ?pushed < fuel cfg st"
      using w by (rule fuel_move) (simp add: busy weight_def)
    show ?thesis
    proof (cases outcome)
      case (Resolved status)
      with step FetchSettled w busy have "st' = ?pushed"
        by (simp add: worker_route_def Let_def r_def)
      with less show ?thesis by simp
    next
      case (Rejected err)
      with step FetchSettled w busy have "st' = claim cfg w (st\<lparr>results := results st @ [r]\<rparr>)"
        by (simp add: worker_route_def Let_def r_def)
      also have "\<dots> = claim cfg w ?pushed"
        using claim_overwrites [of cfg w "st\<lparr>results := results st @ [r]\<rparr>" Sleeping] by simp
      finally have st': "st' = claim cfg w ?pushed" .
      have "pool_inv prog cfg ?pushed"
        using inv w
        by (rule pool_inv_move)
          (simp_all add: busy r_def result_suffix tasks_of_def is_appending_def)
      from fuel_claim [OF this, of w] w have "fuel cfg (claim cfg w ?pushed) < fuel cfg ?pushed"
        by simp
      with less show ?thesis by (simp add: st')
    qed
  next
    case (AppendSettled w ok)
    with step show ?thesis by (simp add: worker_route_def)
  next
    case (TimerFired w)
    with step have w: "w < length (workers st)" and at: "workers st ! w = Sleeping"
      and st': "st' = claim cfg w st"
      by (auto simp: worker_route_def split: if_splits worker_state.splits)
    from fuel_claim [OF inv w] at show ?thesis by (simp add: st')
  qed
qed

lemma pool_exec_fuel:
  assumes "pool_exec prog cfg evs st = Some st'" and "pool_inv prog cfg st"
  shows "length evs + fuel cfg st' \<le> fuel cfg st"
  using assms
proof (induction evs arbitrary: st)
  case Nil
  then show ?case by simp
next
  case (Cons ev evs)
  then obtain st1 where one: "pool_step prog cfg st ev = Some st1"
    and more: "pool_exec prog cfg evs st1 = Some st'"
    by (auto split: option.splits)
  from pool_step_inv [OF one Cons.prems(2)] have "pool_inv prog cfg st1" by simp
  from Cons.IH [OF more this] pool_step_fuel [OF one Cons.prems(2)] show ?case by simp
qed

lemma pool_progress:
  assumes inv: "pool_inv prog cfg st" and busy: "\<not> all_finished st"
  shows "\<exists>ev. pool_step prog cfg st ev \<noteq> None"
proof -
  from busy obtain w where w: "w < length (workers st)" and at: "workers st ! w \<noteq> Finished"
    by (auto simp: all_finished_def list_all_length)
  from w have mem: "workers st ! w \<in> set (workers st)" by simp
  from inv have "NotStarted \<notin> set (workers st)"
    and "prog = RouteChecker \<Longrightarrow> \<forall>s \<in> set (workers st). \<not> is_appending s"
    by (simp_all add: pool_inv_def list_ex_iff)
  with mem have called: "workers st ! w \<noteq> NotStarted"
    and route: "prog = RouteChecker \<Longrightarrow> \<not> is_appending (workers st ! w)"
    by auto
  show ?thesis
  proof (cases "workers st ! w")
    case NotStarted
    with called show ?thesis by simp
  next
    case (Fetching index)
    with w have "pool_step prog cfg st (FetchSettled w (Resolved 200) 0) \<noteq> None"
      by (cases prog) (simp_all add: pool_step_def worker_main_def worker_route_def Let_def)
    then show ?thesis ..
  next
    case (Appending line)
    with route have "prog = UrlChecker" by (cases prog) (simp_all add: is_appending_def)
    with w Appending have "pool_step prog cfg st (AppendSettled w True) \<noteq> None"
      by (simp add: pool_step_def worker_main_def)
    then show ?thesis ..
  next
    case Sleeping
    with w have "pool_step prog cfg st (TimerFired w) \<noteq> None"
      by (cases prog) (simp_all add: pool_step_def worker_main_def worker_route_def)
    then show ?thesis ..
  next
    case Finished
    with at show ?thesis by simp
  qed
qed

text \<open>The calls of \<^verbatim>\<open>worker()\<close> that start the pool: worker \<open>w\<close> claims the index \<open>w\<close>.\<close>

lemma fold_claim_start:
  assumes "k \<le> n" and "n \<le> length (lines cfg)"
  shows "fold (claim cfg) [0..<k]
           \<lparr>idx = 0, results = [], outFile = [], workers = replicate n NotStarted, claims = []\<rparr>
         = \<lparr>idx = k, results = [], outFile = [],
            workers = map Fetching [0..<k] @ replicate (n - k) NotStarted,
            claims = map (\<lambda>w. (w, w)) [0..<k]\<rparr>"
  using assms
proof (induction k)
  case 0
  then show ?case by simp
next
  case (Suc k)
  then have before: "fold (claim cfg) [0..<k]
           \<lparr>idx = 0, results = [], outFile = [], workers = replicate n NotStarted, claims = []\<rparr>
         = \<lparr>idx = k, results = [], outFile = [],
            workers = map Fetching [0..<k] @ replicate (n - k) NotStarted,
            claims = map (\<lambda>w. (w, w)) [0..<k]\<rparr>"
    by simp
  from Suc.prems obtain m where m: "n - k = Suc m" and m': "n - Suc k = m"
    by (cases "n - k") auto
  have "(map Fetching [0..<k] @ replicate (n - k) NotStarted)[k := Fetching k]
      = map Fetching [0..<k] @ Fetching k # replicate (n - Suc k) NotStarted"
    by (simp add: list_update_append m m')
  then have "claim cfg k
       \<lparr>idx = k, results = [], outFile = [],
        workers = map Fetching [0..<k] @ replicate (n - k) NotStarted,
        claims = map (\<lambda>w. (w, w)) [0..<k]\<rparr>
      = \<lparr>idx = Suc k, results = [], outFile = [],
         workers = map Fetching [0..<Suc k] @ replicate (n - Suc k) NotStarted,
         claims = map (\<lambda>w. (w, w)) [0..<Suc k]\<rparr>"
    using Suc.prems by (simp add: claim_def Let_def)
  moreover have "fold (claim cfg) [0..<Suc k]
           \<lparr>idx = 0, results = [], outFile = [], workers = replicate n NotStarted, claims = []\<rparr>
      = claim cfg k (fold (claim cfg) [0..<k]
           \<lparr>idx = 0, results = [], outFile = [], workers = replicate n NotStarted, claims = []\<rparr>)"
    by simp
  ultimately show ?case by (simp only: before)
qed

lemma in_flight_fetching: "concat (map (tasks_of \<circ> Fetching) is) = is"
  by (induction "is") (simp_all add: tasks_of_def)

lemma start_pool_state:
  assumes "0 \<le> workerCount cfg"
  shows "start_pool cfg =
           Inr \<lparr>idx = nat (workerCount cfg), results = [], outFile = [],
                workers = map Fetching [0..<nat (workerCount cfg)],
                claims = map (\<lambda>w. (w, w)) [0..<nat (workerCount cfg)]\<rparr>"
proof -
  have "nat (workerCount cfg) \<le> length (lines cfg)"
    by (simp add: workerCount_def)
  from fold_claim_start [OF order_refl this] assms show ?thesis
    by (simp add: start_pool_def)
qed

lemma start_pool_inv:
  assumes "start_pool cfg = Inr st0"
  shows "pool_inv prog cfg st0"
    and "length (workers st0) = nat (workerCount cfg)"
    and "fuel cfg st0 = 4 * length (lines cfg) + 3 * length (workers st0)"
proof -
  let ?n = "nat (workerCount cfg)"
  from assms have count: "0 \<le> workerCount cfg"
    by (simp add: start_pool_def split: if_splits)
  have le: "?n \<le> length (lines cfg)"
    by (simp add: workerCount_def)
  from assms start_pool_state [OF count]
  have st0: "st0 = \<lparr>idx = ?n, results = [], outFile = [], workers = map Fetching [0..<?n],
                     claims = map (\<lambda>w. (w, w)) [0..<?n]\<rparr>"
    by simp
  have c: "idx st0 = ?n" and rs: "results st0 = []"
    and wk: "workers st0 = map Fetching [0..<?n]"
    and cl: "map fst (claims st0) = [0..<?n]"
    by (simp_all add: st0 comp_def)
  have flight: "in_flight st0 = [0..<?n]"
    by (simp add: wk in_flight_def in_flight_fetching)
  have tasks: "map (\<lambda>i. lines cfg ! i) (in_flight st0) = take (idx st0) (lines cfg)"
    unfolding flight c using le by (intro nth_equalityI) simp_all
  have fins: "finished_count st0 = 0"
    by (auto simp: wk finished_count_def)
  have called: "NotStarted \<notin> set (workers st0)" and quiet: "\<not> list_ex is_appending (workers st0)"
    by (auto simp: wk list_ex_iff is_appending_def)
  have range: "\<forall>i \<in> set (in_flight st0). i < length (lines cfg)"
    using le by (simp add: flight)
  show "pool_inv prog cfg st0"
    unfolding pool_inv_def using cl tasks range fins called quiet le
    by (simp add: c rs)
  show "length (workers st0) = ?n"
    by (simp add: wk)
  have "sum_list (map weight (map Fetching [0..<?n])) = 3 * ?n"
    by (simp add: comp_def weight_def sum_list_triv)
  then show "fuel cfg st0 = 4 * length (lines cfg) + 3 * length (workers st0)"
    using le by (simp add: fuel_def wk c)
qed

lemma claimed_once:
  assumes "map fst cs = [0..<n]" and "i < n"
  shows "\<exists>!w. (i, w) \<in> set cs"
proof -
  from assms have "i \<in> set (map fst cs)" by simp
  then obtain w where w: "(i, w) \<in> set cs" by auto
  from assms have "distinct (map fst cs)" by simp
  then have "v = w" if "(i, v) \<in> set cs" for v
    using that w by (rule eq_key_imp_eq_value)
  with w show ?thesis by blast
qed

text \<open>
  C1. For a concurrency of at least 1 and any list of suffixes, in both checkers, the
  pool starts with \<^verbatim>\<open>Math.min(concurrency, lines.length)\<close> workers, and in every state it
  reaches, whatever the order in which the fetches, the appends and the timers settle:
  \<^item> the run so far is at most \<open>4 * length lines + 3 * length workers\<close> events long, and
    while some worker has not left its loop some event can happen, so every run ends
    with all workers finished;
  \<^item> once all workers have finished, the indices read from the cursor are \<open>0\<close>, \<open>1\<close>, ...
    without gap or repetition, up to the length of the list and one more read for each
    worker; each index of the list was read by exactly one worker; the results in memory
    are as many as the suffixes, and their suffixes are the suffixes of the list, each as
    often as the list has it.
\<close>

theorem C1_each_index_claimed_once:
  assumes "1 \<le> concurrency cfg"
  shows "\<exists>st0. start_pool cfg = Inr st0 \<and>
           length (workers st0) = nat (workerCount cfg) \<and>
           (\<forall>evs st. pool_exec prog cfg evs st0 = Some st \<longrightarrow>
              length evs \<le> 4 * length (lines cfg) + 3 * length (workers st0) \<and>
              (\<not> all_finished st \<longrightarrow> (\<exists>ev. pool_step prog cfg st ev \<noteq> None)) \<and>
              (all_finished st \<longrightarrow>
                 map fst (claims st) = [0..<length (lines cfg) + length (workers st0)] \<and>
                 (\<forall>i < length (lines cfg). \<exists>!w. (i, w) \<in> set (claims st)) \<and>
                 length (results st) = length (lines cfg) \<and>
                 mset (map r_suffix (results st)) = mset (lines cfg)))"
proof -
  let ?n = "length (lines cfg)"
  from assms have count: "0 \<le> workerCount cfg"
    by (simp add: workerCount_def)
  then obtain st0 where start: "start_pool cfg = Inr st0"
    by (simp add: start_pool_def)
  note inv0 = start_pool_inv(1) [OF start, of prog]
  note len0 = start_pool_inv(2) [OF start]
  note fuel0 = start_pool_inv(3) [OF start]
  have "length evs \<le> 4 * ?n + 3 * length (workers st0) \<and>
        (\<not> all_finished st \<longrightarrow> (\<exists>ev. pool_step prog cfg st ev \<noteq> None)) \<and>
        (all_finished st \<longrightarrow>
           map fst (claims st) = [0..<?n + length (workers st0)] \<and>
           (\<forall>i < ?n. \<exists>!w. (i, w) \<in> set (claims st)) \<and>
           length (results st) = ?n \<and>
           mset (map r_suffix (results st)) = mset (lines cfg))"
    if run: "pool_exec prog cfg evs st0 = Some st" for evs st
  proof -
    from pool_exec_inv [OF run inv0]
    have inv: "pool_inv prog cfg st" and len: "length (workers st) = length (workers st0)"
      by simp_all
    from pool_exec_fuel [OF run inv0] fuel0
    have bound: "length evs \<le> 4 * ?n + 3 * length (workers st0)"
      by simp
    have progress: "\<exists>ev. pool_step prog cfg st ev \<noteq> None" if "\<not> all_finished st"
      using inv that by (rule pool_progress)
    have final: "map fst (claims st) = [0..<?n + length (workers st0)] \<and>
           (\<forall>i < ?n. \<exists>!w. (i, w) \<in> set (claims st)) \<and>
           length (results st) = ?n \<and>
           mset (map r_suffix (results st)) = mset (lines cfg)"
      if fin: "all_finished st"
    proof -
      from inv have cl: "map fst (claims st) = [0..<idx st]"
        and tasks: "mset (map r_suffix (results st))
            + mset (map (\<lambda>i. lines cfg ! i) (in_flight st)) = mset (take (idx st) (lines cfg))"
        and count: "finished_count st = idx st - ?n"
        by (simp_all add: pool_inv_def)
      from fin have all: "filter (\<lambda>s. s = Finished) (workers st) = workers st"
        by (simp add: all_finished_def list_all_iff)
      then have fins: "finished_count st = length (workers st0)"
        by (simp add: finished_count_def len)
      from fin have idle: "in_flight st = []"
        by (auto simp: all_finished_def list_all_iff in_flight_def tasks_of_def)
      have cursor: "idx st = ?n + length (workers st0)"
      proof (cases "length (workers st0) = 0")
        case True
        with len0 have "workerCount cfg \<le> 0" by simp
        with assms have "?n = 0" by (simp add: workerCount_def min_def split: if_splits)
        with count fins True show ?thesis by simp
      next
        case False
        with count fins show ?thesis by simp
      qed
      from cl cursor have "\<exists>!w. (i, w) \<in> set (claims st)" if "i < ?n" for i
        using that by (intro claimed_once [of "claims st" "idx st"]) simp_all
      moreover from tasks idle cursor have perm: "mset (map r_suffix (results st)) = mset (lines cfg)"
        by simp
      moreover from perm have "length (results st) = ?n"
        by (metis length_map size_mset)
      ultimately show ?thesis using cl cursor by simp
    qed
    from bound progress final show ?thesis by blast
  qed
  with start len0 show ?thesis by blast
qed

theorem C1_each_index_claimed_once_witness:
  "\<exists>st0 st. start_pool scenario = Inr st0 \<and>
     pool_exec UrlChecker scenario scenario_events st0 = Some st \<and>
     all_finished st \<and>
     claims st = [(0, 0), (1, 1), (2, 0), (3, 1), (4, 0)] \<and>
     length (results st) = 3 \<and>
     map r_tag (results st) = [Some ''OK'', Some ''NOTFOUND/CLIENT'', Some ''ERROR''] \<and>
     map r_detail (results st) = [None, None, Some ''TIMEOUT (5000ms)'']"
proof -
  have "1 \<le> concurrency scenario"
    by (simp add: scenario_def)
  from C1_each_index_claimed_once [OF this, of UrlChecker] obtain st0 where
    start: "start_pool scenario = Inr st0"
    and "length (workers st0) = nat (workerCount scenario)"
    and all: "\<And>evs st. pool_exec UrlChecker scenario evs st0 = Some st \<Longrightarrow>
        all_finished st \<Longrightarrow> length (results st) = length (lines scenario)"
    by blast
  have st0: "st0 = \<lparr>idx = 2, results = [], outFile = [], workers = [Fetching 0, Fetching 1],
                     claims = [(0, 0), (1, 1)]\<rparr>"
    using start
    by (simp add: start_pool_def workerCount_def scenario_def claim_def Let_def
        upt_rec [of 0] upt_rec [of 1] numeral_2_eq_2)
  obtain st where run: "pool_exec UrlChecker scenario scenario_events st0 = Some st"
    and fin: "all_finished st"
    and cl: "claims st = [(0, 0), (1, 1), (2, 0), (3, 1), (4, 0)]"
    and tags: "map r_tag (results st) = [Some ''OK'', Some ''NOTFOUND/CLIENT'', Some ''ERROR'']"
    and details: "map r_detail (results st) = [None, None, Some ''TIMEOUT (5000ms)'']"
    by (simp add: st0 scenario_events_def scenario_def pool_step_def worker_main_def claim_def
        Let_def all_finished_def result_main_def tag_of_status_def reason_main_def
        timeout_reason_def show_int_def show_nat.simps digit_char_def)
  from all [OF run fin] have len: "length (results st) = 3"
    by (simp add: scenario_def)
  show ?thesis
    by (intro exI [of _ st0] exI [of _ st] conjI) (fact start run fin cl len tags details)+
qed

end
